theory Spec2Isabelle
  imports Main "HOL-Library.Word"
begin

text \<open>
  The spreadsheet merger of \<open>App.tsx\<close>: the pending list of uploaded files with its
  handlers, the loop that gives every file a sheet name that is new in the output
  workbook and at most 31 code units long, and the merge with its failure handling.
  The browser and the spreadsheet library are not part of the program: reading and
  decoding a file are parameters, and the workbook operations are as the specification
  describes them.
\<close>

section \<open>Strings of the host language\<close>

text \<open>
  A JavaScript string is a sequence of UTF-16 code units: \<open>length\<close>, \<open>slice\<close>,
  \<open>endsWith\<close> and the regular expression of \<open>App.tsx\<close> all count and compare code
  units. A string is therefore a list of 16-bit words; \<open>ascii\<close> writes a literal whose
  characters are all below 128.
\<close>

type_synonym jschar = "16 word"
type_synonym jsstring = "jschar list"

definition ascii :: "string \<Rightarrow> jsstring" where
  "ascii s = map (\<lambda>c. of_nat (of_char c :: nat)) s"

text \<open>
  \<open>String.prototype.slice(start, end)\<close>: a negative index counts from the end of the
  string, both indices are clamped to the string, and an empty range gives the empty
  string.
\<close>

definition slice :: "jsstring \<Rightarrow> int \<Rightarrow> int \<Rightarrow> jsstring" where
  "slice s intStart intEnd =
     (let len = int (length s);
          from_idx = (if intStart < 0 then max (len + intStart) 0 else min intStart len);
          to_idx = (if intEnd < 0 then max (len + intEnd) 0 else min intEnd len)
      in take (nat (to_idx - from_idx)) (drop (nat from_idx) s))"

text \<open>\<open>String.prototype.endsWith(searchString)\<close>, compared code unit by code unit.\<close>

definition endsWith :: "jsstring \<Rightarrow> jsstring \<Rightarrow> bool" where
  "endsWith s searchString =
     (length searchString \<le> length s \<and>
      drop (length s - length searchString) s = searchString)"

text \<open>
  The template literal \<open>`_${counter}`\<close> renders the counter in decimal. The counter is
  a JavaScript number that starts at 1 and is incremented by 1; it is modelled as a
  natural number, which is exact as long as it stays below \<open>2^53\<close> (an array holds
  fewer than \<open>2^32\<close> files, and the loop never counts further than one past the
  number of sheets already placed).
\<close>

definition digit_char :: "nat \<Rightarrow> jschar" where
  "digit_char d = of_nat (48 + d)"

fun toString :: "nat \<Rightarrow> jsstring" where
  "toString n = (if n < 10 then [digit_char n] else toString (n div 10) @ [digit_char (n mod 10)])"

declare toString.simps [simp del]

subsection \<open>The regular expression \<open>/\.(xlsx|xls)$/i\<close>\<close>

text \<open>
  Under the \<open>i\<close> flag (without the \<open>u\<close> flag) two code units match when their
  canonical forms agree; the canonical form is the upper-case code unit, except that a
  code unit of 128 or more is never mapped to one below 128. The pattern consists of
  ASCII characters only, so an input code unit matches a pattern character exactly when
  it is below 128 and has the same ASCII upper case.
\<close>

definition toUpperCase_ascii :: "jschar \<Rightarrow> jschar" where
  "toUpperCase_ascii c = (if 0x61 \<le> c \<and> c \<le> 0x7A then c - 0x20 else c)"

definition char_match_i :: "jschar \<Rightarrow> jschar \<Rightarrow> bool" where
  "char_match_i ch p = (ch < 0x80 \<and> toUpperCase_ascii ch = toUpperCase_ascii p)"

text \<open>Matching a literal of the pattern at the front of the input; the result is the rest.\<close>

fun match_i :: "jsstring \<Rightarrow> jsstring \<Rightarrow> jsstring option" where
  "match_i input [] = Some input"
| "match_i [] (p # ps) = None"
| "match_i (c # cs) (p # ps) = (if char_match_i c p then match_i cs ps else None)"

text \<open>
  The whole pattern tried at one start position, \<open>r\<close> being the input from that
  position on: a dot, then the first alternative \<open>xlsx\<close> followed by the end of the
  input, and on failure the second alternative \<open>xls\<close> followed by the end of the input.
\<close>

definition regex_at :: "jsstring \<Rightarrow> bool" where
  "regex_at r =
     (case match_i r (ascii ''.'') of
        None \<Rightarrow> False
      | Some r1 \<Rightarrow>
          (if match_i r1 (ascii ''xlsx'') = Some [] then True
           else match_i r1 (ascii ''xls'') = Some []))"

text \<open>
  \<open>name.replace(/\.(xlsx|xls)$/i, '')\<close>: the start positions are tried from left to
  right; the first match is replaced by the empty string. A match always reaches the
  end of the input, so everything from the matching position on is removed.
\<close>

fun replace_ext :: "jsstring \<Rightarrow> jsstring" where
  "replace_ext [] = []"
| "replace_ext (c # cs) = (if regex_at (c # cs) then [] else c # replace_ext cs)"

section \<open>The pending file list\<close>

text \<open>
  The browser's \<open>File\<close> object: its name and its content, which the program never
  inspects itself.
\<close>

datatype 'b File = File (file_name: jsstring) (file_content: 'b)

record 'b UploadedFile =
  name :: jsstring
  "file" :: "'b File"
  sheetName :: jsstring

record 'b App_state =
  files :: "'b UploadedFile list"
  isProcessing :: bool
  isDragOver :: bool

definition initial_state :: "'b App_state" where
  "initial_state = \<lparr>files = [], isProcessing = False, isDragOver = False\<rparr>"

definition handleFileSelect :: "'b File list option \<Rightarrow> 'b App_state \<Rightarrow> 'b App_state" where
  "handleFileSelect selectedFiles st =
     (case selectedFiles of
        None \<Rightarrow> st
      | Some selected \<Rightarrow>
          (let xlsxFiles =
                 filter (\<lambda>f. endsWith (file_name f) (ascii ''.xlsx'') \<or>
                              endsWith (file_name f) (ascii ''.xls'')) selected;
               newFiles =
                 map (\<lambda>f. \<lparr>name = file_name f, file = f,
                            sheetName = replace_ext (file_name f)\<rparr>) xlsxFiles
           in st\<lparr>files := files st @ newFiles\<rparr>))"

definition handleDrop :: "'b File list option \<Rightarrow> 'b App_state \<Rightarrow> 'b App_state" where
  "handleDrop dropped st = handleFileSelect dropped (st\<lparr>isDragOver := False\<rparr>)"

definition handleDragOver :: "'b App_state \<Rightarrow> 'b App_state" where
  "handleDragOver st = st\<lparr>isDragOver := True\<rparr>"

definition handleDragLeave :: "'b App_state \<Rightarrow> 'b App_state" where
  "handleDragLeave st = st\<lparr>isDragOver := False\<rparr>"

definition removeFile :: "nat \<Rightarrow> 'b App_state \<Rightarrow> 'b App_state" where
  "removeFile index st =
     st\<lparr>files := map snd (filter (\<lambda>(i, f). i \<noteq> index) (enumerate 0 (files st)))\<rparr>"

definition updateSheetName :: "nat \<Rightarrow> jsstring \<Rightarrow> 'b App_state \<Rightarrow> 'b App_state" where
  "updateSheetName index newName st =
     st\<lparr>files := map (\<lambda>(i, f). if i = index then f\<lparr>sheetName := newName\<rparr> else f)
                       (enumerate 0 (files st))\<rparr>"

text \<open>The button that empties the list calls \<open>setFiles([])\<close>.\<close>

definition clearFiles :: "'b App_state \<Rightarrow> 'b App_state" where
  "clearFiles st = st\<lparr>files := []\<rparr>"

section \<open>The workbook of the spreadsheet library\<close>

record 'ws Workbook =
  SheetNames :: "jsstring list"
  Sheets :: "jsstring \<rightharpoonup> 'ws"

text \<open>
  Modelled from the spec: the spreadsheet library is not part of the repository. Its
  \<open>newWorkbook()\<close> gives a workbook without sheets.
\<close>

definition book_new :: "'ws Workbook" where
  "book_new = \<lparr>SheetNames = [], Sheets = Map.empty\<rparr>"

text \<open>
  Modelled from the spec: the library's \<open>appendSheet(Workbook, content, name)\<close> inserts
  the pair of name and content, the insertion order being the sheet order.
\<close>

definition book_append_sheet :: "'ws Workbook \<Rightarrow> 'ws \<Rightarrow> jsstring \<Rightarrow> 'ws Workbook" where
  "book_append_sheet wb ws nm =
     wb\<lparr>SheetNames := SheetNames wb @ [nm], Sheets := (Sheets wb)(nm \<mapsto> ws)\<rparr>"

section \<open>Merging\<close>

text \<open>
  Inside the loop: \<open>const suffix = `_${counter}`\<close>, and the candidate
  \<open>uploadedFile.sheetName.slice(0, 31 - suffix.length) + suffix\<close>, where \<open>requested\<close>
  is \<open>uploadedFile.sheetName\<close>.
\<close>

definition suffix_of :: "nat \<Rightarrow> jsstring" where
  "suffix_of counter = ascii ''_'' @ toString counter"

definition candidate :: "jsstring \<Rightarrow> nat \<Rightarrow> jsstring" where
  "candidate requested counter =
     (let suffix = suffix_of counter
      in slice requested 0 (31 - int (length suffix)) @ suffix)"

text \<open>
  The \<open>while\<close> loop of \<open>mergeAndDownload\<close>. Its state is the local variable
  \<open>sheetName\<close> (here \<open>cur\<close>, since \<open>sheetName\<close> is also the field) and the
  \<open>counter\<close>; \<open>names\<close> is \<open>newWorkbook.SheetNames\<close>. The result is the state in
  which the loop is left.
\<close>

function while_includes :: "jsstring list \<Rightarrow> jsstring \<Rightarrow> jsstring \<Rightarrow> nat \<Rightarrow> jsstring \<times> nat" where
  "while_includes names requested cur counter =
     (if cur \<in> set names
      then while_includes names requested (candidate requested counter) (counter + 1)
      else (cur, counter))"
  by pat_completeness auto

text \<open>
  The statements from \<open>let sheetName = uploadedFile.sheetName.slice(0, 31)\<close> to the
  end of the loop: the state in which the loop is left, and the name it holds, which
  is the one passed to \<open>book_append_sheet\<close>.
\<close>

definition resolve_state :: "jsstring list \<Rightarrow> jsstring \<Rightarrow> jsstring \<times> nat" where
  "resolve_state names requested = while_includes names requested (slice requested 0 31) 1"

definition resolve_sheetName :: "jsstring list \<Rightarrow> jsstring \<Rightarrow> jsstring" where
  "resolve_sheetName names requested = fst (resolve_state names requested)"

text \<open>
  The number of times the loop body ran for one file, that is the number of suffixed
  candidates it formed: the counter starts at 1 and is incremented once per round.
\<close>

definition attempts :: "jsstring list \<Rightarrow> jsstring \<Rightarrow> nat" where
  "attempts names requested = snd (resolve_state names requested) - 1"

text \<open>
  \<open>workbook.SheetNames[0]\<close> and \<open>workbook.Sheets[firstSheetName]\<close>: reading past the
  end of an array gives \<open>undefined\<close>, which as a property key is the string
  \<open>undefined\<close>; a missing property is \<open>undefined\<close> again (\<open>None\<close>).
\<close>

definition first_worksheet :: "'ws Workbook \<Rightarrow> 'ws option" where
  "first_worksheet workbook =
     (let firstSheetName = (case SheetNames workbook of [] \<Rightarrow> ascii ''undefined'' | n # _ \<Rightarrow> n)
      in Sheets workbook firstSheetName)"

text \<open>
  The \<open>for\<close> loop over the pending files. Reading the bytes of a file
  (\<open>arrayBuffer\<close>) and decoding them (\<open>XLSX_read\<close>) are done by the browser and by the
  library; both may throw, which leaves the loop with the error (\<open>Inl\<close>). They are
  parameters of the model.
\<close>

fun merge_loop ::
  "('b File \<Rightarrow> 'e + 'buf) \<Rightarrow> ('buf \<Rightarrow> 'e + 'ws Workbook) \<Rightarrow>
   'b UploadedFile list \<Rightarrow> 'ws option Workbook \<Rightarrow> 'e + 'ws option Workbook" where
  "merge_loop arrayBuffer XLSX_read [] newWorkbook = Inr newWorkbook"
| "merge_loop arrayBuffer XLSX_read (uploadedFile # rest) newWorkbook =
     (case arrayBuffer (file uploadedFile) of
        Inl err \<Rightarrow> Inl err
      | Inr buf \<Rightarrow>
          (case XLSX_read buf of
             Inl err \<Rightarrow> Inl err
           | Inr workbook \<Rightarrow>
               (let worksheet = first_worksheet workbook;
                    resolved = resolve_sheetName (SheetNames newWorkbook) (sheetName uploadedFile)
                in merge_loop arrayBuffer XLSX_read rest
                     (book_append_sheet newWorkbook worksheet resolved))))"

text \<open>
  What the user and the browser see of a merge: \<open>console.error\<close> with its message and
  the error caught, \<open>alert\<close> with its message, and the call
  \<open>XLSX.writeFile(newWorkbook, 'merged.xlsx')\<close>, by which the library serialises the
  workbook and offers it for download under the given file name.
\<close>

datatype ('e, 'ws) effect =
    ConsoleError jsstring 'e
  | Alert jsstring
  | WriteFile "'ws Workbook" jsstring

definition console_message :: jsstring where
  "console_message =
     [0xD30C, 0xC77C, 0x0020, 0xBCD1, 0xD569, 0x0020, 0xC911, 0x0020, 0xC624, 0xB958, 0x003A]"

definition alert_message :: jsstring where
  "alert_message =
     [0xD30C, 0xC77C, 0x0020, 0xBCD1, 0xD569, 0x0020, 0xC911, 0x0020, 0xC624, 0xB958, 0xAC00,
      0x0020, 0xBC1C, 0xC0DD, 0xD588, 0xC2B5, 0xB2C8, 0xB2E4, 0x002E]"

text \<open>
  \<open>mergeAndDownload\<close>: the state after the call and the effects in their order. With
  an empty list it returns at once. Otherwise \<open>isProcessing\<close> is set while the merge
  runs and reset in the \<open>finally\<close> block, so it is \<open>False\<close> afterwards; an error
  thrown in the loop is caught, logged and answered with one alert.
\<close>

definition mergeAndDownload ::
  "('b File \<Rightarrow> 'e + 'buf) \<Rightarrow> ('buf \<Rightarrow> 'e + 'ws Workbook) \<Rightarrow>
   'b App_state \<Rightarrow> 'b App_state \<times> ('e, 'ws option) effect list" where
  "mergeAndDownload arrayBuffer XLSX_read st =
     (if length (files st) = 0 then (st, [])
      else
        (case merge_loop arrayBuffer XLSX_read (files st) book_new of
           Inr newWorkbook \<Rightarrow>
             (st\<lparr>isProcessing := False\<rparr>, [WriteFile newWorkbook (ascii ''merged.xlsx'')])
         | Inl err \<Rightarrow>
             (st\<lparr>isProcessing := False\<rparr>, [ConsoleError console_message err, Alert alert_message])))"

text \<open>Whether reading and decoding one file succeeds.\<close>

definition decodes :: "('b File \<Rightarrow> 'e + 'buf) \<Rightarrow> ('buf \<Rightarrow> 'e + 'ws Workbook) \<Rightarrow> 'b UploadedFile \<Rightarrow> bool" where
  "decodes arrayBuffer XLSX_read uploadedFile =
     (case arrayBuffer (file uploadedFile) of
        Inl err \<Rightarrow> False
      | Inr buf \<Rightarrow> (case XLSX_read buf of Inl err \<Rightarrow> False | Inr workbook \<Rightarrow> True))"

text \<open>
  The sheet names of the output workbook as a function of the requested names alone:
  the names already in the workbook followed by the name settled for each request in
  turn. \<open>merge_loop\<close> is shown below to assign exactly these names.
\<close>

fun resolved_names :: "jsstring list \<Rightarrow> jsstring list \<Rightarrow> jsstring list" where
  "resolved_names names [] = names"
| "resolved_names names (requested # rest) =
     resolved_names (names @ [resolve_sheetName names requested]) rest"

subsection \<open>The events that change the pending list before a merge\<close>

datatype 'b event =
    Select "'b File list option"
  | Drop "'b File list option"
  | Remove nat
  | Rename nat jsstring
  | Clear
  | DragOver
  | DragLeave

fun dispatch :: "'b event \<Rightarrow> 'b App_state \<Rightarrow> 'b App_state" where
  "dispatch (Select sel) st = handleFileSelect sel st"
| "dispatch (Drop sel) st = handleDrop sel st"
| "dispatch (Remove i) st = removeFile i st"
| "dispatch (Rename i newName) st = updateSheetName i newName st"
| "dispatch Clear st = clearFiles st"
| "dispatch DragOver st = handleDragOver st"
| "dispatch DragLeave st = handleDragLeave st"

fun run_events :: "'b event list \<Rightarrow> 'b App_state \<Rightarrow> 'b App_state" where
  "run_events [] st = st"
| "run_events (ev # evs) st = run_events evs (dispatch ev st)"

text \<open>
  An event that keeps within the limit of 31 code units: the accepted files of a
  selection have at most 31 code units before their extension, and a new sheet name
  has at most 31 code units (what the \<open>maxLength\<close> of the text input allows to type).
\<close>

definition selection_within_limit :: "'b File list option \<Rightarrow> bool" where
  "selection_within_limit sel =
     (case sel of
        None \<Rightarrow> True
      | Some selected \<Rightarrow>
          list_all
            (\<lambda>f. (endsWith (file_name f) (ascii ''.xlsx'') \<longrightarrow> length (file_name f) \<le> 36) \<and>
                 (endsWith (file_name f) (ascii ''.xls'') \<longrightarrow> length (file_name f) \<le> 35))
            selected)"

fun within_limit :: "'b event \<Rightarrow> bool" where
  "within_limit (Select sel) = selection_within_limit sel"
| "within_limit (Drop sel) = selection_within_limit sel"
| "within_limit (Rename i newName) = (length newName \<le> 31)"
| "within_limit (Remove i) = True"
| "within_limit Clear = True"
| "within_limit DragOver = True"
| "within_limit DragLeave = True"

section \<open>Decimal rendering and the candidates of the loop\<close>

lemma ascii_underscore: "ascii ''_'' = [0x5F]"
  by (simp add: ascii_def)

lemma unat_digit_char: "d < 10 \<Longrightarrow> unat (digit_char d) = 48 + d"
  by (simp add: digit_char_def unat_of_nat del: of_nat_add)

lemma digit_char_not_underscore: "d < 10 \<Longrightarrow> digit_char d \<noteq> 0x5F"
proof
  assume "d < 10" and "digit_char d = 0x5F"
  then have "unat (0x5F :: 16 word) = 48 + d"
    using unat_digit_char by metis
  with \<open>d < 10\<close> show False by simp
qed

lemma digit_char_inj: "d < 10 \<Longrightarrow> e < 10 \<Longrightarrow> digit_char d = digit_char e \<Longrightarrow> d = e"
proof -
  assume d: "d < 10" and e: "e < 10" and eq: "digit_char d = digit_char e"
  have "48 + d = unat (digit_char d)"
    using d by (simp only: unat_digit_char)
  also have "\<dots> = unat (digit_char e)"
    by (simp only: eq)
  also have "\<dots> = 48 + e"
    using e by (simp only: unat_digit_char)
  finally show "d = e" by simp
qed

lemma toString_not_Nil: "toString n \<noteq> []"
  by (subst toString.simps) simp

lemma toString_digits: "set (toString n) \<subseteq> digit_char ` {..<10}"
proof (induction n rule: toString.induct)
  case (1 n)
  show ?case
  proof (cases "n < 10")
    case True
    then show ?thesis by (subst toString.simps) simp
  next
    case False
    with 1 show ?thesis by (subst toString.simps) simp
  qed
qed

lemma toString_inj: "toString a = toString b \<Longrightarrow> a = b"
proof (induction a arbitrary: b rule: toString.induct)
  case (1 a)
  show ?case
  proof (cases "a < 10")
    case small_a: True
    show ?thesis
    proof (cases "b < 10")
      case True
      with small_a 1(2) show ?thesis
        by (simp add: toString.simps [of a] toString.simps [of b] digit_char_inj)
    next
      case False
      with small_a 1(2) toString_not_Nil [of "b div 10"] show ?thesis
        by (simp add: toString.simps [of a] toString.simps [of b])
    qed
  next
    case big_a: False
    show ?thesis
    proof (cases "b < 10")
      case True
      with big_a 1(2) toString_not_Nil [of "a div 10"] show ?thesis
        by (simp add: toString.simps [of a] toString.simps [of b])
    next
      case False
      with big_a 1(2) have eq: "toString (a div 10) = toString (b div 10)"
        and d: "digit_char (a mod 10) = digit_char (b mod 10)"
        by (simp_all add: toString.simps [of a] toString.simps [of b])
      from 1(1) [OF big_a eq] have "a div 10 = b div 10" .
      moreover from d have "a mod 10 = b mod 10"
        by (rule digit_char_inj [rotated 2]) simp_all
      ultimately show ?thesis
        by (metis div_mult_mod_eq)
    qed
  qed
qed

lemma toString_length: "0 < m \<Longrightarrow> n < 10 ^ m \<Longrightarrow> length (toString n) \<le> m"
proof (induction n arbitrary: m rule: toString.induct)
  case (1 n)
  show ?case
  proof (cases "n < 10")
    case True
    with 1(2) show ?thesis by (simp add: toString.simps [of n])
  next
    case False
    with 1(3) have "1 < m"
      by (cases "m = 1") (use 1(2) in auto)
    then obtain k where m: "m = Suc k" and k: "0 < k"
      by (cases m) auto
    from 1(3) m have "n div 10 < 10 ^ k"
      by (simp add: less_mult_imp_div_less mult.commute)
    from 1(1) [OF False k this] m False show ?thesis
      by (simp add: toString.simps [of n])
  qed
qed


text \<open>
  Every candidate ends in an underscore followed by digits only, so two candidates for
  different counters differ, whatever the requested name is.
\<close>

lemma takeWhile_rev_toString:
  "takeWhile (\<lambda>c. c \<noteq> 0x5F) (rev (toString k) @ 0x5F # rest) = rev (toString k)"
proof -
  have "\<forall>c\<in>set (rev (toString k)). c \<noteq> 0x5F"
    using toString_digits [of k] digit_char_not_underscore by auto
  then show ?thesis
    by (simp add: takeWhile_tail)
qed

lemma candidate_decomp:
  "\<exists>p. candidate requested k = p @ 0x5F # toString k"
  by (simp add: candidate_def suffix_of_def ascii_underscore Let_def)

lemma candidate_inj: "candidate requested j = candidate requested k \<Longrightarrow> j = k"
proof -
  assume eq: "candidate requested j = candidate requested k"
  obtain p where p: "candidate requested j = p @ 0x5F # toString j"
    using candidate_decomp by blast
  obtain q where q: "candidate requested k = q @ 0x5F # toString k"
    using candidate_decomp by blast
  from eq p q have "rev (toString j) @ 0x5F # rev p = rev (toString k) @ 0x5F # rev q"
    by (metis rev.simps(2) rev_append append_Cons append_Nil append_assoc)
  then have "takeWhile (\<lambda>c. c \<noteq> 0x5F) (rev (toString j) @ 0x5F # rev p)
      = takeWhile (\<lambda>c. c \<noteq> 0x5F) (rev (toString k) @ 0x5F # rev q)"
    by (rule arg_cong)
  then have "rev (toString j) = rev (toString k)"
    by (simp only: takeWhile_rev_toString)
  then show "j = k"
    by (simp add: toString_inj)
qed

lemma inj_candidate: "inj (candidate requested)"
  by (rule injI) (rule candidate_inj)

lemma finite_colliding: "finite {k. candidate requested k \<in> set names}"
proof -
  have "finite (candidate requested -` set names)"
    by (rule finite_vimageI) (simp_all add: inj_candidate)
  then show ?thesis by (simp add: vimage_def)
qed

section \<open>The collision loop terminates\<close>

text \<open>
  Only finitely many counters give a candidate that is among the names of the workbook;
  past the largest of them the loop is left.
\<close>

termination while_includes
proof (relation "measure (\<lambda>(names, requested, cur, counter).
    if cur \<in> set names
    then 1 + (Suc (Max (insert 0 {k. candidate requested k \<in> set names})) - counter)
    else 0)")
  show "wf (measure (\<lambda>(names, requested, cur, counter).
    if cur \<in> set names
    then 1 + (Suc (Max (insert 0 {k. candidate requested k \<in> set names})) - counter)
    else 0))"
    by simp
next
  fix names :: "jsstring list" and requested cur :: jsstring and counter :: nat
  assume "cur \<in> set names"
  moreover have "counter \<le> Max (insert 0 {k. candidate requested k \<in> set names})"
    if "candidate requested counter \<in> set names"
    using that finite_colliding [of requested names] by (intro Max_ge) simp_all
  ultimately show "((names, requested, candidate requested counter, counter + 1),
      (names, requested, cur, counter)) \<in> measure (\<lambda>(names, requested, cur, counter).
    if cur \<in> set names
    then 1 + (Suc (Max (insert 0 {k. candidate requested k \<in> set names})) - counter)
    else 0)"
    by auto
qed

declare while_includes.simps [simp del]

text \<open>
  The state in which the loop is left: the name is not in the workbook; it is the name
  the loop started with when the body never ran, and else the candidate of the last
  round, all candidates of the earlier rounds being in the workbook.
\<close>

lemma while_includes_result:
  "while_includes names requested cur c = (res, c') \<Longrightarrow>
     res \<notin> set names \<and> c \<le> c' \<and>
     (if c' = c then res = cur else cur \<in> set names \<and> res = candidate requested (c' - 1)) \<and>
     (\<forall>j. c \<le> j \<and> j < c' - 1 \<longrightarrow> candidate requested j \<in> set names)"
proof (induction names requested cur c rule: while_includes.induct)
  case (1 names requested cur counter)
  show ?case
  proof (cases "cur \<in> set names")
    case False
    with 1(2) show ?thesis
      by (auto simp add: while_includes.simps [of names requested cur counter])
  next
    case True
    with 1(2) have run: "while_includes names requested (candidate requested counter) (counter + 1) = (res, c')"
      by (simp add: while_includes.simps [of names requested cur counter])
    note ih = 1(1) [OF True run]
    from ih have le: "counter + 1 \<le> c'" by simp
    have res: "res = candidate requested (c' - 1)"
      using ih by (cases "c' = counter + 1") simp_all
    have coll: "candidate requested j \<in> set names" if "counter \<le> j" "j < c' - 1" for j
    proof (cases "j = counter")
      case True
      with that ih show ?thesis by (auto split: if_splits)
    next
      case False
      with that ih show ?thesis by simp
    qed
    from ih le res coll True show ?thesis by auto
  qed
qed

lemma colliding_bound:
  assumes "\<forall>j. 1 \<le> j \<and> j \<le> m \<longrightarrow> candidate requested j \<in> set names"
  shows "m \<le> length names"
proof -
  have "candidate requested ` {1..m} \<subseteq> set names"
    using assms by auto
  then have "card (candidate requested ` {1..m}) \<le> card (set names)"
    by (intro card_mono) simp_all
  moreover have "card (candidate requested ` {1..m}) = m"
    using inj_candidate [of requested] by (simp add: card_image inj_on_def)
  ultimately show ?thesis
    using card_length [of names] by linarith
qed

lemma resolve_state_counter: "snd (resolve_state names requested) \<le> length names + 2"
proof -
  obtain res c' where r: "resolve_state names requested = (res, c')"
    by (cases "resolve_state names requested")
  then have "\<forall>j. 1 \<le> j \<and> j < c' - 1 \<longrightarrow> candidate requested j \<in> set names"
    using while_includes_result [of names requested "slice requested 0 31" 1 res c']
    by (simp add: resolve_state_def)
  then have "\<forall>j. 1 \<le> j \<and> j \<le> c' - 2 \<longrightarrow> candidate requested j \<in> set names"
    by auto
  then have "c' - 2 \<le> length names"
    by (rule colliding_bound)
  with r show ?thesis by simp
qed

section \<open>The name the loop settles on\<close>

lemma slice_0: "0 \<le> e \<Longrightarrow> slice s 0 e = take (nat e) s"
  by (simp add: slice_def Let_def min_def)

lemma length_suffix_of: "k < 10 ^ 10 \<Longrightarrow> length (suffix_of k) \<le> 11"
  using toString_length [of 10 k] by (simp add: suffix_of_def ascii_underscore)

lemma candidate_take:
  "length (suffix_of k) \<le> 31 \<Longrightarrow>
     candidate requested k = take (31 - length (suffix_of k)) requested @ suffix_of k"
  by (simp add: candidate_def Let_def slice_0 nat_diff_distrib')

lemma length_candidate: "length (suffix_of k) \<le> 31 \<Longrightarrow> length (candidate requested k) \<le> 31"
  by (simp add: candidate_take)

lemma resolve_state_cases:
  assumes "resolve_state names requested = (res, c')"
  shows "res \<notin> set names" and "1 \<le> c'" and "c' \<le> length names + 2"
    and "c' = 1 \<Longrightarrow> res = slice requested 0 31"
    and "c' \<noteq> 1 \<Longrightarrow> slice requested 0 31 \<in> set names \<and> res = candidate requested (c' - 1)"
    and "\<And>j. 1 \<le> j \<Longrightarrow> j < c' - 1 \<Longrightarrow> candidate requested j \<in> set names"
  using while_includes_result [of names requested "slice requested 0 31" 1 res c']
    resolve_state_counter [of names requested] assms
  by (simp_all add: resolve_state_def split: if_splits)

lemma resolve_sheetName_fresh: "resolve_sheetName names requested \<notin> set names"
  using resolve_state_cases(1) [of names requested]
  by (cases "resolve_state names requested") (simp add: resolve_sheetName_def)

lemma resolve_sheetName_length:
  assumes "length names < 2 ^ 32"
  shows "length (resolve_sheetName names requested) \<le> 31"
proof -
  obtain res c' where r: "resolve_state names requested = (res, c')"
    by (cases "resolve_state names requested")
  show ?thesis
  proof (cases "c' = 1")
    case True
    with resolve_state_cases(4) [OF r] r show ?thesis
      by (simp add: resolve_sheetName_def slice_0)
  next
    case False
    from resolve_state_cases(3) [OF r] assms have "c' - 1 < 10 ^ 10" by simp
    then have "length (suffix_of (c' - 1)) \<le> 31"
      using length_suffix_of [of "c' - 1"] by simp
    with resolve_state_cases(5) [OF r False] r show ?thesis
      by (simp add: resolve_sheetName_def length_candidate)
  qed
qed

lemma resolve_sheetName_unchanged:
  "length requested \<le> 31 \<Longrightarrow> requested \<notin> set names \<Longrightarrow> resolve_sheetName names requested = requested"
  by (simp add: resolve_sheetName_def resolve_state_def slice_0 while_includes.simps)

section \<open>The names assigned by the merge loop\<close>

lemma merge_loop_names:
  "merge_loop arrayBuffer XLSX_read fs wb = Inr wb' \<Longrightarrow>
     SheetNames wb' = resolved_names (SheetNames wb) (map sheetName fs)"
proof (induction fs arbitrary: wb)
  case Nil
  then show ?case by simp
next
  case (Cons u fs)
  from Cons.prems obtain buf workbook where
    "merge_loop arrayBuffer XLSX_read fs
       (book_append_sheet wb (first_worksheet workbook)
          (resolve_sheetName (SheetNames wb) (sheetName u))) = Inr wb'"
    by (auto simp add: Let_def split: sum.splits)
  from Cons.IH [OF this] show ?case
    by (simp add: book_append_sheet_def)
qed

lemma merge_loop_success:
  "list_all (decodes arrayBuffer XLSX_read) fs \<Longrightarrow>
     \<exists>wb'. merge_loop arrayBuffer XLSX_read fs wb = Inr wb'"
proof (induction fs arbitrary: wb)
  case Nil
  then show ?case by simp
next
  case (Cons u fs)
  from Cons.prems obtain buf workbook where
    "arrayBuffer (file u) = Inr buf" and "XLSX_read buf = Inr workbook"
    by (auto simp add: decodes_def split: sum.splits)
  moreover from Cons.prems have "list_all (decodes arrayBuffer XLSX_read) fs"
    by simp
  ultimately show ?case
    using Cons.IH by (simp add: Let_def)
qed

lemma merge_loop_failure:
  "u \<in> set fs \<Longrightarrow> \<not> decodes arrayBuffer XLSX_read u \<Longrightarrow>
     \<exists>err. merge_loop arrayBuffer XLSX_read fs wb = Inl err"
proof (induction fs arbitrary: wb)
  case Nil
  then show ?case by simp
next
  case (Cons v fs)
  show ?case
  proof (cases "decodes arrayBuffer XLSX_read v")
    case False
    then show ?thesis
      by (auto simp add: decodes_def split: sum.splits)
  next
    case True
    with Cons.prems have "u \<in> set fs" by auto
    from Cons.IH [OF this Cons.prems(2)] show ?thesis
      by (auto simp add: Let_def split: sum.splits)
  qed
qed

lemma resolved_names_invariant:
  "distinct names \<Longrightarrow> \<forall>n\<in>set names. length n \<le> 31 \<Longrightarrow>
   length names + length rs \<le> bound \<Longrightarrow> bound < 2 ^ 32 \<Longrightarrow>
     distinct (resolved_names names rs) \<and>
     (\<forall>n\<in>set (resolved_names names rs). length n \<le> 31) \<and>
     length (resolved_names names rs) = length names + length rs"
proof (induction rs arbitrary: names)
  case Nil
  then show ?case by simp
next
  case (Cons r rs)
  let ?names' = "names @ [resolve_sheetName names r]"
  from Cons.prems(3) have "length names \<le> bound" by simp
  then have "length names < 2 ^ 32"
    using Cons.prems(4) by (rule le_less_trans)
  then have len: "length (resolve_sheetName names r) \<le> 31"
    by (rule resolve_sheetName_length)
  have 1: "distinct ?names'"
    using Cons.prems(1) resolve_sheetName_fresh [of names r] by simp
  have 2: "\<forall>n\<in>set ?names'. length n \<le> 31"
    using Cons.prems(2) len by simp
  have 3: "length ?names' + length rs \<le> bound"
    using Cons.prems(3) by simp
  from Cons.IH [OF 1 2 3 Cons.prems(4)] show ?case
    by simp
qed

lemma resolved_names_unchanged:
  "distinct (names @ rs) \<Longrightarrow> \<forall>r\<in>set rs. length r \<le> 31 \<Longrightarrow>
     resolved_names names rs = names @ rs"
proof (induction rs arbitrary: names)
  case Nil
  then show ?case by simp
next
  case (Cons r rs)
  from Cons.prems have "resolve_sheetName names r = r"
    by (intro resolve_sheetName_unchanged) simp_all
  moreover from Cons.prems have "distinct ((names @ [r]) @ rs)"
    by auto
  ultimately show ?case
    using Cons.IH [of "names @ [r]"] Cons.prems(2) by simp
qed

section \<open>Extensions of file names\<close>

text \<open>
  A match of the regular expression covers the rest of the input and is four or five
  code units long, so in a name that ends in one of the two lower-case extensions the
  only match is that extension.
\<close>

lemma endsWith_iff: "endsWith s t \<longleftrightarrow> (\<exists>p. s = p @ t)"
proof
  assume "endsWith s t"
  then have "s = take (length s - length t) s @ t"
    by (metis endsWith_def append_take_drop_id)
  then show "\<exists>p. s = p @ t" ..
next
  assume "\<exists>p. s = p @ t"
  then show "endsWith s t"
    by (auto simp add: endsWith_def)
qed

lemma match_i_length: "match_i r pat = Some rest \<Longrightarrow> length r = length pat + length rest"
  by (induction r pat rule: match_i.induct) (simp_all split: if_splits)

lemma regex_at_length: "regex_at r \<Longrightarrow> length r = 5 \<or> length r = 4"
proof -
  assume "regex_at r"
  then obtain r1 where r1: "match_i r (ascii ''.'') = Some r1"
    and alt: "match_i r1 (ascii ''xlsx'') = Some [] \<or> match_i r1 (ascii ''xls'') = Some []"
    by (auto simp add: regex_at_def split: option.splits if_splits)
  from match_i_length [OF r1] have "length r = 1 + length r1"
    by (simp add: ascii_def)
  moreover from alt have "length r1 = 4 \<or> length r1 = 3"
    by (auto dest!: match_i_length simp add: ascii_def)
  ultimately show ?thesis by auto
qed

lemma regex_at_xlsx: "regex_at (ascii ''.xlsx'')"
  by (simp add: regex_at_def ascii_def char_match_i_def toUpperCase_ascii_def)

lemma regex_at_xls: "regex_at (ascii ''.xls'')"
  by (simp add: regex_at_def ascii_def char_match_i_def toUpperCase_ascii_def)

lemma regex_at_not_before_xls: "\<not> regex_at (c # ascii ''.xls'')"
  by (simp add: regex_at_def ascii_def char_match_i_def toUpperCase_ascii_def)

lemma replace_ext_xlsx: "replace_ext (p @ ascii ''.xlsx'') = p"
proof (induction p)
  case Nil
  have "replace_ext (ascii ''.xlsx'') = []"
    using regex_at_xlsx by (simp add: ascii_def)
  then show ?case by simp
next
  case (Cons c p)
  have "\<not> regex_at (c # p @ ascii ''.xlsx'')"
    using regex_at_length [of "c # p @ ascii ''.xlsx''"] by (auto simp add: ascii_def)
  with Cons show ?case by simp
qed

lemma replace_ext_xls: "replace_ext (p @ ascii ''.xls'') = p"
proof (induction p)
  case Nil
  have "replace_ext (ascii ''.xls'') = []"
    using regex_at_xls by (simp add: ascii_def)
  then show ?case by simp
next
  case (Cons c p)
  have "\<not> regex_at (c # p @ ascii ''.xls'')"
  proof (cases p)
    case Nil
    then show ?thesis using regex_at_not_before_xls by simp
  next
    case (Cons d q)
    then show ?thesis
      using regex_at_length [of "c # p @ ascii ''.xls''"] by (auto simp add: ascii_def)
  qed
  with Cons.IH show ?case by simp
qed

section \<open>Selecting, renaming and removing files\<close>

lemma new_file_sheetName:
  assumes "endsWith n (ascii ''.xlsx'') \<or> endsWith n (ascii ''.xls'')"
  shows "n = replace_ext n @ ascii ''.xlsx'' \<or> n = replace_ext n @ ascii ''.xls''"
  using assms by (auto simp add: endsWith_iff replace_ext_xlsx replace_ext_xls)

lemma handleFileSelect_within_limit:
  assumes "selection_within_limit sel"
    and "\<forall>u\<in>set (files st). length (sheetName u) \<le> 31"
  shows "\<forall>u\<in>set (files (handleFileSelect sel st)). length (sheetName u) \<le> 31"
proof (cases sel)
  case None
  with assms(2) show ?thesis by (simp add: handleFileSelect_def)
next
  case (Some selected)
  have "length (replace_ext (file_name f)) \<le> 31"
    if "f \<in> set selected"
      and "endsWith (file_name f) (ascii ''.xlsx'') \<or> endsWith (file_name f) (ascii ''.xls'')" for f
  proof -
    from that(1) assms(1) Some
    have lim: "endsWith (file_name f) (ascii ''.xlsx'') \<longrightarrow> length (file_name f) \<le> 36"
      "endsWith (file_name f) (ascii ''.xls'') \<longrightarrow> length (file_name f) \<le> 35"
      by (simp_all add: selection_within_limit_def list_all_iff)
    from that(2) show ?thesis
    proof
      assume e: "endsWith (file_name f) (ascii ''.xlsx'')"
      then obtain p where p: "file_name f = p @ ascii ''.xlsx''"
        by (auto simp add: endsWith_iff)
      with lim(1) e have "length p \<le> 31" by (simp add: ascii_def)
      with p show ?thesis by (simp add: replace_ext_xlsx)
    next
      assume e: "endsWith (file_name f) (ascii ''.xls'')"
      then obtain p where p: "file_name f = p @ ascii ''.xls''"
        by (auto simp add: endsWith_iff)
      with lim(2) e have "length p \<le> 31" by (simp add: ascii_def)
      with p show ?thesis by (simp add: replace_ext_xls)
    qed
  qed
  with assms(2) Some show ?thesis
    by (auto simp add: handleFileSelect_def)
qed

lemma removeFile_subset: "set (files (removeFile i st)) \<subseteq> set (files st)"
  by (auto simp add: removeFile_def in_set_enumerate_eq)

lemma updateSheetName_within_limit:
  assumes "length newName \<le> 31"
    and "\<forall>u\<in>set (files st). length (sheetName u) \<le> 31"
  shows "\<forall>u\<in>set (files (updateSheetName i newName st)). length (sheetName u) \<le> 31"
  using assms by (auto simp add: updateSheetName_def in_set_enumerate_eq)

lemma dispatch_within_limit:
  assumes "within_limit ev"
    and "\<forall>u\<in>set (files st). length (sheetName u) \<le> 31"
  shows "\<forall>u\<in>set (files (dispatch ev st)). length (sheetName u) \<le> 31"
proof (cases ev)
  case (Select sel)
  with assms show ?thesis
    by (simp add: handleFileSelect_within_limit)
next
  case (Drop sel)
  with assms handleFileSelect_within_limit [of sel "st\<lparr>isDragOver := False\<rparr>"] show ?thesis
    by (simp add: handleDrop_def)
next
  case (Remove i)
  with assms(2) removeFile_subset [of i st] show ?thesis
    by auto
next
  case (Rename i newName)
  with assms show ?thesis
    by (simp add: updateSheetName_within_limit)
next
  case Clear
  then show ?thesis by (simp add: clearFiles_def)
next
  case DragOver
  with assms(2) show ?thesis by (simp add: handleDragOver_def)
next
  case DragLeave
  with assms(2) show ?thesis by (simp add: handleDragLeave_def)
qed

lemma run_events_within_limit:
  "list_all within_limit evs \<Longrightarrow> \<forall>u\<in>set (files st). length (sheetName u) \<le> 31 \<Longrightarrow>
     \<forall>u\<in>set (files (run_events evs st)). length (sheetName u) \<le> 31"
proof (induction evs arbitrary: st)
  case Nil
  then show ?case by simp
next
  case (Cons ev evs)
  from Cons.prems have "\<forall>u\<in>set (files (dispatch ev st)). length (sheetName u) \<le> 31"
    by (intro dispatch_within_limit) simp_all
  with Cons.IH [of "dispatch ev st"] Cons.prems(1) show ?case
    by simp
qed

section \<open>The first suffix\<close>

lemma suffix_of_1: "suffix_of (Suc 0) = ascii ''_1''"
  by (simp add: suffix_of_def toString.simps [of "Suc 0"] ascii_def digit_char_def)

section \<open>Evaluation on concrete inputs\<close>

lemmas eval_simps = resolve_sheetName_def resolve_state_def while_includes.simps candidate_def
  suffix_of_def slice_def toString.simps ascii_def digit_char_def Let_def

section \<open>The specified properties\<close>

text \<open>
  C1. Whatever the requested sheet names are (duplicates, empty names, names of more
  than 31 code units), the names that the merge loop assigns into the output workbook
  are pairwise distinct, each has at most 31 code units, and there is one per file.
  An array of the host language has fewer than \<open>2^32\<close> elements, which is the only
  restriction on the list of files.
\<close>

theorem merged_names_distinct_and_short:
  assumes "merge_loop arrayBuffer XLSX_read fs book_new = Inr wb"
    and "length fs < 2 ^ 32"
  shows "distinct (SheetNames wb) \<and> (\<forall>n\<in>set (SheetNames wb). length n \<le> 31) \<and>
    length (SheetNames wb) = length fs"
  using resolved_names_invariant [of "[]" "map sheetName fs" "length fs"]
    merge_loop_names [OF assms(1)] assms(2)
  by (simp add: book_new_def)

text \<open>
  Four files asking for \<open>Data\<close>, \<open>Data\<close> again, the empty name and a name of 44
  code units.
\<close>

theorem merged_names_distinct_and_short_witness:
  "\<exists>wb. merge_loop (\<lambda>f. Inr (file_content f) :: unit + nat)
           (\<lambda>b. Inr \<lparr>SheetNames = [ascii ''Sheet1''], Sheets = [ascii ''Sheet1'' \<mapsto> b]\<rparr> :: unit + nat Workbook)
           [\<lparr>name = ascii ''x.xlsx'', file = File (ascii ''x.xlsx'') 1, sheetName = ascii ''Data''\<rparr>,
            \<lparr>name = ascii ''y.xlsx'', file = File (ascii ''y.xlsx'') 2, sheetName = ascii ''Data''\<rparr>,
            \<lparr>name = ascii ''.xlsx'', file = File (ascii ''.xlsx'') 3, sheetName = []\<rparr>,
            \<lparr>name = ascii ''z.xlsx'', file = File (ascii ''z.xlsx'') 4, sheetName = ascii ''Quarterly revenue by region and product line''\<rparr>]
           book_new = Inr wb \<and>
         SheetNames wb = [ascii ''Data'', ascii ''Data_1'', [], ascii ''Quarterly revenue by region and''] \<and>
         distinct (SheetNames wb) \<and> list_all (\<lambda>n. length n \<le> 31) (SheetNames wb) \<and>
         length (SheetNames wb) = 4"
proof -
  let ?ab = "\<lambda>f. Inr (file_content f) :: unit + nat"
  let ?rd = "\<lambda>b. Inr \<lparr>SheetNames = [ascii ''Sheet1''], Sheets = [ascii ''Sheet1'' \<mapsto> b]\<rparr> :: unit + nat Workbook"
  let ?fs = "[\<lparr>name = ascii ''x.xlsx'', file = File (ascii ''x.xlsx'') 1, sheetName = ascii ''Data''\<rparr>,
            \<lparr>name = ascii ''y.xlsx'', file = File (ascii ''y.xlsx'') 2, sheetName = ascii ''Data''\<rparr>,
            \<lparr>name = ascii ''.xlsx'', file = File (ascii ''.xlsx'') 3, sheetName = []\<rparr>,
            \<lparr>name = ascii ''z.xlsx'', file = File (ascii ''z.xlsx'') 4, sheetName = ascii ''Quarterly revenue by region and product line''\<rparr>]"
  have "list_all (decodes ?ab ?rd) ?fs"
    by (simp add: decodes_def)
  then obtain wb where wb: "merge_loop ?ab ?rd ?fs book_new = Inr wb"
    using merge_loop_success by blast
  have "length ?fs < 2 ^ 32" by simp
  from merged_names_distinct_and_short [OF wb this]
  have props: "distinct (SheetNames wb)" "list_all (\<lambda>n. length n \<le> 31) (SheetNames wb)"
    "length (SheetNames wb) = 4"
    by (simp_all add: list_all_iff)
  from merge_loop_names [OF wb]
  have "SheetNames wb = [ascii ''Data'', ascii ''Data_1'', [], ascii ''Quarterly revenue by region and'']"
    by (simp add: book_new_def eval_simps)
  with wb props show ?thesis by blast
qed

text \<open>
  C2. If reading or decoding any one file of the list fails, the merge as a whole
  fails: the effects are the logged error and one alert with the fixed message, no
  workbook is written (so nothing of the files decoded before the failure is handed
  out), and the state is the one before the call, with its list of files unchanged.
\<close>

theorem decode_failure_aborts:
  assumes "u \<in> set (files st)" and "\<not> decodes arrayBuffer XLSX_read u"
  shows "\<exists>err. mergeAndDownload arrayBuffer XLSX_read st =
           (st\<lparr>isProcessing := False\<rparr>, [ConsoleError console_message err, Alert alert_message])"
proof -
  from assms obtain err where "merge_loop arrayBuffer XLSX_read (files st) book_new = Inl err"
    using merge_loop_failure by blast
  moreover from assms(1) have "length (files st) \<noteq> 0" by auto
  ultimately show ?thesis
    by (simp add: mergeAndDownload_def)
qed

text \<open>The first of two files decodes, the second does not.\<close>

theorem decode_failure_aborts_witness:
  "mergeAndDownload (\<lambda>f. Inr (file_content f) :: unit + nat)
     (\<lambda>b. if b = 0 then Inl ()
           else Inr \<lparr>SheetNames = [ascii ''Sheet1''], Sheets = [ascii ''Sheet1'' \<mapsto> b]\<rparr>)
     \<lparr>files =
        [\<lparr>name = ascii ''x.xlsx'', file = File (ascii ''x.xlsx'') 1, sheetName = ascii ''x''\<rparr>,
         \<lparr>name = ascii ''y.xlsx'', file = File (ascii ''y.xlsx'') 0, sheetName = ascii ''y''\<rparr>],
      isProcessing = False, isDragOver = False\<rparr> =
   (\<lparr>files =
        [\<lparr>name = ascii ''x.xlsx'', file = File (ascii ''x.xlsx'') 1, sheetName = ascii ''x''\<rparr>,
         \<lparr>name = ascii ''y.xlsx'', file = File (ascii ''y.xlsx'') 0, sheetName = ascii ''y''\<rparr>],
      isProcessing = False, isDragOver = False\<rparr>,
    [ConsoleError console_message (), Alert alert_message])"
proof -
  let ?ab = "\<lambda>f. Inr (file_content f) :: unit + nat"
  let ?rd = "\<lambda>b. if b = 0 then Inl ()
           else Inr \<lparr>SheetNames = [ascii ''Sheet1''], Sheets = [ascii ''Sheet1'' \<mapsto> b]\<rparr> :: unit + nat Workbook"
  let ?bad = "\<lparr>name = ascii ''y.xlsx'', file = File (ascii ''y.xlsx'') (0::nat), sheetName = ascii ''y''\<rparr>"
  let ?st = "\<lparr>files =
        [\<lparr>name = ascii ''x.xlsx'', file = File (ascii ''x.xlsx'') 1, sheetName = ascii ''x''\<rparr>, ?bad],
      isProcessing = False, isDragOver = False\<rparr>"
  have "?bad \<in> set (files ?st)" and "\<not> decodes ?ab ?rd ?bad"
    by (simp_all add: decodes_def)
  from decode_failure_aborts [OF this] show ?thesis
    by simp
qed

text \<open>
  C3, amended. The loop is a total function of the names in the workbook and the
  requested name, and it is left with a name that is not in the workbook. The number
  of suffixed candidates it forms for one file is at most the number of names already
  placed plus one (not the number of names already placed).
\<close>

theorem attempts_bound:
  "snd (resolve_state names requested) = attempts names requested + 1 \<and>
   attempts names requested \<le> length names + 1 \<and>
   resolve_sheetName names requested \<notin> set names"
proof -
  obtain res c' where r: "resolve_state names requested = (res, c')"
    by (cases "resolve_state names requested")
  from resolve_state_cases(2,3) [OF r] r show ?thesis
    using resolve_sheetName_fresh [of names requested] by (simp add: attempts_def)
qed

text \<open>The bound is reached: one name placed, two suffixed candidates formed.\<close>

theorem attempts_bound_witness:
  "attempts [ascii ''aaaaaaaaaaaaaaaaaaaaaaaaaaaaa_1''] (ascii ''aaaaaaaaaaaaaaaaaaaaaaaaaaaaa_1'') = 2 \<and>
   resolve_sheetName [ascii ''aaaaaaaaaaaaaaaaaaaaaaaaaaaaa_1''] (ascii ''aaaaaaaaaaaaaaaaaaaaaaaaaaaaa_1'')
     = ascii ''aaaaaaaaaaaaaaaaaaaaaaaaaaaaa_2''"
  using attempts_bound [of "[ascii ''aaaaaaaaaaaaaaaaaaaaaaaaaaaaa_1'']" "ascii ''aaaaaaaaaaaaaaaaaaaaaaaaaaaaa_1''"]
  by (simp add: attempts_def eval_simps)

text \<open>
  C3 as stated fails. Two files ask for the same name of 31 code units that ends in
  \<open>_1\<close>. The first file gets the name. For the second file the first suffixed
  candidate keeps 29 code units and appends \<open>_1\<close>, which is the name itself again, so
  a second candidate is needed while only one file has been placed.
\<close>

theorem attempts_exceed_placed_files:
  "resolve_sheetName [] (ascii ''aaaaaaaaaaaaaaaaaaaaaaaaaaaaa_1'') = ascii ''aaaaaaaaaaaaaaaaaaaaaaaaaaaaa_1'' \<and>
   \<not> attempts [ascii ''aaaaaaaaaaaaaaaaaaaaaaaaaaaaa_1''] (ascii ''aaaaaaaaaaaaaaaaaaaaaaaaaaaaa_1'')
       \<le> length [ascii ''aaaaaaaaaaaaaaaaaaaaaaaaaaaaa_1'']"
  by (simp add: attempts_def eval_simps)

text \<open>
  C4. When the requested name, cut to 31 code units, is already in the workbook, the
  name settled on is the requested name cut to 31 minus the length of the suffix,
  followed by the suffix of the first counter whose candidate is not in the workbook;
  the candidates of all smaller counters, formed in the same way, are in the workbook.
  In particular a requested name of 31 code units that collides once becomes its first
  29 code units followed by \<open>_1\<close>, again 31 code units long.
\<close>

theorem collision_candidate_shape:
  "(slice requested 0 31 \<in> set names \<and> length names < 2 ^ 32 \<longrightarrow>
      (\<exists>k. attempts names requested = k \<and> 1 \<le> k \<and> length (suffix_of k) \<le> 31 \<and>
           resolve_sheetName names requested =
             take (31 - length (suffix_of k)) requested @ suffix_of k \<and>
           (\<forall>j. 1 \<le> j \<and> j < k \<longrightarrow>
              take (31 - length (suffix_of j)) requested @ suffix_of j \<in> set names))) \<and>
   (length requested = 31 \<and> requested \<in> set names \<and>
    take 29 requested @ ascii ''_1'' \<notin> set names \<longrightarrow>
      resolve_sheetName names requested = take 29 requested @ ascii ''_1'' \<and>
      length (resolve_sheetName names requested) = 31)"
proof (intro conjI impI)
  assume "slice requested 0 31 \<in> set names \<and> length names < 2 ^ 32"
  then have coll: "slice requested 0 31 \<in> set names" and len: "length names < 2 ^ 32"
    by simp_all
  obtain res c' where r: "resolve_state names requested = (res, c')"
    by (cases "resolve_state names requested")
  from resolve_state_cases(1,4) [OF r] coll have c': "c' \<noteq> 1"
    by auto
  let ?k = "c' - 1"
  from c' resolve_state_cases(2) [OF r] have k1: "1 \<le> ?k" by simp
  have short: "length (suffix_of j) \<le> 31" if "j \<le> ?k" for j
  proof -
    from that resolve_state_cases(3) [OF r] len have "j < 10 ^ 10" by simp
    then show ?thesis
      using length_suffix_of [of j] by simp
  qed
  have "res = candidate requested ?k"
    using resolve_state_cases(5) [OF r c'] by simp
  then have res: "resolve_sheetName names requested =
      take (31 - length (suffix_of ?k)) requested @ suffix_of ?k"
    using r short [of ?k] by (simp add: resolve_sheetName_def candidate_take)
  have earlier: "\<forall>j. 1 \<le> j \<and> j < ?k \<longrightarrow>
      take (31 - length (suffix_of j)) requested @ suffix_of j \<in> set names"
  proof (intro allI impI)
    fix j
    assume j: "1 \<le> j \<and> j < ?k"
    then have "candidate requested j \<in> set names"
      using resolve_state_cases(6) [OF r, of j] by simp
    moreover from j have "length (suffix_of j) \<le> 31"
      by (intro short) simp
    ultimately show "take (31 - length (suffix_of j)) requested @ suffix_of j \<in> set names"
      by (simp add: candidate_take)
  qed
  have "attempts names requested = ?k"
    using r by (simp add: attempts_def)
  with k1 short [of ?k] res earlier
  show "\<exists>k. attempts names requested = k \<and> 1 \<le> k \<and> length (suffix_of k) \<le> 31 \<and>
           resolve_sheetName names requested =
             take (31 - length (suffix_of k)) requested @ suffix_of k \<and>
           (\<forall>j. 1 \<le> j \<and> j < k \<longrightarrow>
              take (31 - length (suffix_of j)) requested @ suffix_of j \<in> set names)"
    by blast
next
  assume a: "length requested = 31 \<and> requested \<in> set names \<and>
    take 29 requested @ ascii ''_1'' \<notin> set names"
  then have start: "slice requested 0 31 = requested"
    by (simp add: slice_0)
  have "length (suffix_of 1) \<le> 31"
    by (simp add: suffix_of_1 ascii_def)
  then have cand: "candidate requested 1 = take 29 requested @ ascii ''_1''"
    by (simp add: candidate_take suffix_of_1 ascii_def)
  have "resolve_state names requested = while_includes names requested requested 1"
    by (simp add: resolve_state_def start)
  also have "\<dots> = while_includes names requested (candidate requested 1) (1 + 1)"
    using a by (subst while_includes.simps) simp
  also have "\<dots> = (take 29 requested @ ascii ''_1'', 1 + 1)"
    using a cand by (subst while_includes.simps) simp
  finally show "resolve_sheetName names requested = take 29 requested @ ascii ''_1''"
    by (simp add: resolve_sheetName_def)
  with a show "length (resolve_sheetName names requested) = 31"
    by (simp add: ascii_def)
qed

text \<open>A name of 31 code units that is already in the workbook.\<close>

theorem collision_candidate_shape_witness:
  "resolve_sheetName [ascii ''Monthly sales report 2024-01 EU'']
     (ascii ''Monthly sales report 2024-01 EU'') = ascii ''Monthly sales report 2024-01 _1'' \<and>
   1 \<le> attempts [ascii ''Monthly sales report 2024-01 EU''] (ascii ''Monthly sales report 2024-01 EU'')"
proof -
  let ?r = "ascii ''Monthly sales report 2024-01 EU''"
  note shape = collision_candidate_shape [of ?r "[?r]"]
  have "length ?r = 31 \<and> ?r \<in> set [?r] \<and> take 29 ?r @ ascii ''_1'' \<notin> set [?r]"
    by (simp add: ascii_def)
  with shape have "resolve_sheetName [?r] ?r = take 29 ?r @ ascii ''_1''"
    by blast
  then have 1: "resolve_sheetName [?r] ?r = ascii ''Monthly sales report 2024-01 _1''"
    by (simp add: ascii_def)
  have "slice ?r 0 31 \<in> set [?r] \<and> length [?r] < 2 ^ 32"
    by (simp add: slice_0 ascii_def)
  with shape obtain k where "attempts [?r] ?r = k" and "1 \<le> k"
    by blast
  then have 2: "1 \<le> attempts [?r] ?r"
    by simp
  from 1 2 show ?thesis by simp
qed

text \<open>
  C5. If the requested sheet names are pairwise distinct and each has at most 31 code
  units, the sheet names of the output workbook are the requested names, unchanged
  and in the same order.
\<close>

theorem distinct_short_names_kept:
  assumes "merge_loop arrayBuffer XLSX_read fs book_new = Inr wb"
    and "distinct (map sheetName fs)"
    and "\<forall>u\<in>set fs. length (sheetName u) \<le> 31"
  shows "SheetNames wb = map sheetName fs"
  using resolved_names_unchanged [of "[]" "map sheetName fs"] merge_loop_names [OF assms(1)] assms(2,3)
  by (simp add: book_new_def)

text \<open>Three distinct names, one of which looks like a suffixed name.\<close>

theorem distinct_short_names_kept_witness:
  "\<exists>wb. merge_loop (\<lambda>f. Inr (file_content f) :: unit + nat)
           (\<lambda>b. Inr \<lparr>SheetNames = [ascii ''Sheet1''], Sheets = [ascii ''Sheet1'' \<mapsto> b]\<rparr> :: unit + nat Workbook)
           [\<lparr>name = ascii ''x.xlsx'', file = File (ascii ''x.xlsx'') 1, sheetName = ascii ''Sales''\<rparr>,
            \<lparr>name = ascii ''y.xlsx'', file = File (ascii ''y.xlsx'') 2, sheetName = ascii ''Costs''\<rparr>,
            \<lparr>name = ascii ''z.xlsx'', file = File (ascii ''z.xlsx'') 3, sheetName = ascii ''Sales_1''\<rparr>]
           book_new = Inr wb \<and>
         SheetNames wb = [ascii ''Sales'', ascii ''Costs'', ascii ''Sales_1'']"
proof -
  let ?ab = "\<lambda>f. Inr (file_content f) :: unit + nat"
  let ?rd = "\<lambda>b. Inr \<lparr>SheetNames = [ascii ''Sheet1''], Sheets = [ascii ''Sheet1'' \<mapsto> b]\<rparr> :: unit + nat Workbook"
  let ?fs = "[\<lparr>name = ascii ''x.xlsx'', file = File (ascii ''x.xlsx'') 1, sheetName = ascii ''Sales''\<rparr>,
            \<lparr>name = ascii ''y.xlsx'', file = File (ascii ''y.xlsx'') 2, sheetName = ascii ''Costs''\<rparr>,
            \<lparr>name = ascii ''z.xlsx'', file = File (ascii ''z.xlsx'') 3, sheetName = ascii ''Sales_1''\<rparr>]"
  have "list_all (decodes ?ab ?rd) ?fs"
    by (simp add: decodes_def)
  then obtain wb where wb: "merge_loop ?ab ?rd ?fs book_new = Inr wb"
    using merge_loop_success by blast
  have "distinct (map sheetName ?fs)" and "\<forall>u\<in>set ?fs. length (sheetName u) \<le> 31"
    by (simp_all add: ascii_def)
  from distinct_short_names_kept [OF wb this]
  have "SheetNames wb = [ascii ''Sales'', ascii ''Costs'', ascii ''Sales_1'']"
    by simp
  with wb show ?thesis by blast
qed

text \<open>
  C6. Two files that both ask for \<open>Data\<close> get \<open>Data\<close> and \<open>Data_1\<close>. Selecting
  the files \<open>a.xlsx\<close>, \<open>b.xlsx\<close>, \<open>a.xlsx\<close> and merging them writes one workbook
  with exactly the three sheets \<open>a\<close>, \<open>b\<close>, \<open>a_1\<close>, in this order.
\<close>

theorem duplicates_get_suffix:
  "(list_all (decodes arrayBuffer XLSX_read) fs \<and>
    map sheetName fs = [ascii ''Data'', ascii ''Data''] \<longrightarrow>
      (\<exists>wb. merge_loop arrayBuffer XLSX_read fs book_new = Inr wb \<and>
            SheetNames wb = [ascii ''Data'', ascii ''Data_1''])) \<and>
   (list_all (decodes arrayBuffer XLSX_read)
      (files (handleFileSelect
         (Some [File (ascii ''a.xlsx'') c1, File (ascii ''b.xlsx'') c2, File (ascii ''a.xlsx'') c3])
         initial_state)) \<longrightarrow>
      (\<exists>wb. snd (mergeAndDownload arrayBuffer XLSX_read
                 (handleFileSelect
                    (Some [File (ascii ''a.xlsx'') c1, File (ascii ''b.xlsx'') c2,
                           File (ascii ''a.xlsx'') c3])
                    initial_state)) = [WriteFile wb (ascii ''merged.xlsx'')] \<and>
            SheetNames wb = [ascii ''a'', ascii ''b'', ascii ''a_1'']))"
proof (intro conjI impI)
  assume a: "list_all (decodes arrayBuffer XLSX_read) fs \<and>
    map sheetName fs = [ascii ''Data'', ascii ''Data'']"
  then obtain wb where wb: "merge_loop arrayBuffer XLSX_read fs book_new = Inr wb"
    using merge_loop_success by blast
  have rn: "resolved_names [] [ascii ''Data'', ascii ''Data''] = [ascii ''Data'', ascii ''Data_1'']"
    by (simp add: eval_simps)
  from merge_loop_names [OF wb] a
  have "SheetNames wb = resolved_names [] [ascii ''Data'', ascii ''Data'']"
    by (simp add: book_new_def del: resolved_names.simps)
  then have "SheetNames wb = [ascii ''Data'', ascii ''Data_1'']"
    by (simp only: rn)
  with wb show "\<exists>wb. merge_loop arrayBuffer XLSX_read fs book_new = Inr wb \<and>
            SheetNames wb = [ascii ''Data'', ascii ''Data_1'']"
    by blast
next
  let ?st = "handleFileSelect
         (Some [File (ascii ''a.xlsx'') c1, File (ascii ''b.xlsx'') c2, File (ascii ''a.xlsx'') c3])
         initial_state"
  assume a: "list_all (decodes arrayBuffer XLSX_read) (files ?st)"
  then obtain wb where wb: "merge_loop arrayBuffer XLSX_read (files ?st) book_new = Inr wb"
    using merge_loop_success by blast
  have "replace_ext (ascii ''a.xlsx'') = ascii ''a''" "replace_ext (ascii ''b.xlsx'') = ascii ''b''"
    using replace_ext_xlsx [of "ascii ''a''"] replace_ext_xlsx [of "ascii ''b''"]
    by (simp_all add: ascii_def)
  then have names: "map sheetName (files ?st) = [ascii ''a'', ascii ''b'', ascii ''a'']"
    by (simp add: handleFileSelect_def initial_state_def endsWith_def ascii_def)
  have rn: "resolved_names [] [ascii ''a'', ascii ''b'', ascii ''a''] = [ascii ''a'', ascii ''b'', ascii ''a_1'']"
    by (simp add: eval_simps)
  from merge_loop_names [OF wb] names
  have "SheetNames wb = resolved_names [] [ascii ''a'', ascii ''b'', ascii ''a'']"
    by (simp add: book_new_def del: resolved_names.simps)
  then have sn: "SheetNames wb = [ascii ''a'', ascii ''b'', ascii ''a_1'']"
    by (simp only: rn)
  from names have "length (files ?st) \<noteq> 0"
    by (metis length_map list.distinct(1) length_0_conv)
  with wb have "snd (mergeAndDownload arrayBuffer XLSX_read ?st) = [WriteFile wb (ascii ''merged.xlsx'')]"
    by (simp add: mergeAndDownload_def)
  with sn show "\<exists>wb. snd (mergeAndDownload arrayBuffer XLSX_read ?st) = [WriteFile wb (ascii ''merged.xlsx'')] \<and>
            SheetNames wb = [ascii ''a'', ascii ''b'', ascii ''a_1'']"
    by blast
qed

text \<open>Both parts with a reader and a decoder that always succeed.\<close>

theorem duplicates_get_suffix_witness:
  "(\<exists>wb. merge_loop (\<lambda>f. Inr (file_content f) :: unit + nat)
           (\<lambda>b. Inr \<lparr>SheetNames = [ascii ''Sheet1''], Sheets = [ascii ''Sheet1'' \<mapsto> b]\<rparr> :: unit + nat Workbook)
           [\<lparr>name = ascii ''x.xlsx'', file = File (ascii ''x.xlsx'') 1, sheetName = ascii ''Data''\<rparr>,
            \<lparr>name = ascii ''y.xlsx'', file = File (ascii ''y.xlsx'') 2, sheetName = ascii ''Data''\<rparr>]
           book_new = Inr wb \<and>
         SheetNames wb = [ascii ''Data'', ascii ''Data_1'']) \<and>
   (\<exists>wb. snd (mergeAndDownload (\<lambda>f. Inr (file_content f) :: unit + nat)
           (\<lambda>b. Inr \<lparr>SheetNames = [ascii ''Sheet1''], Sheets = [ascii ''Sheet1'' \<mapsto> b]\<rparr> :: unit + nat Workbook)
           (handleFileSelect
              (Some [File (ascii ''a.xlsx'') 1, File (ascii ''b.xlsx'') 2, File (ascii ''a.xlsx'') 3])
              initial_state)) = [WriteFile wb (ascii ''merged.xlsx'')] \<and>
         SheetNames wb = [ascii ''a'', ascii ''b'', ascii ''a_1''])"
proof -
  let ?ab = "\<lambda>f. Inr (file_content f) :: unit + nat"
  let ?rd = "\<lambda>b. Inr \<lparr>SheetNames = [ascii ''Sheet1''], Sheets = [ascii ''Sheet1'' \<mapsto> b]\<rparr> :: unit + nat Workbook"
  let ?fs = "[\<lparr>name = ascii ''x.xlsx'', file = File (ascii ''x.xlsx'') (1::nat), sheetName = ascii ''Data''\<rparr>,
            \<lparr>name = ascii ''y.xlsx'', file = File (ascii ''y.xlsx'') (2::nat), sheetName = ascii ''Data''\<rparr>]"
  note dup = duplicates_get_suffix [of ?ab ?rd ?fs 1 2 3]
  have 1: "list_all (decodes ?ab ?rd) ?fs \<and> map sheetName ?fs = [ascii ''Data'', ascii ''Data'']"
    by (simp add: decodes_def)
  have 2: "list_all (decodes ?ab ?rd)
      (files (handleFileSelect
         (Some [File (ascii ''a.xlsx'') (1::nat), File (ascii ''b.xlsx'') 2, File (ascii ''a.xlsx'') 3])
         initial_state))"
    by (simp add: decodes_def list_all_iff)
  from dup [THEN conjunct1, THEN mp, OF 1] dup [THEN conjunct2, THEN mp, OF 2]
  show ?thesis
    by (rule conjI)
qed

text \<open>
  C7. A selection of files never fails. The files whose names end in \<open>.xlsx\<close> or
  \<open>.xls\<close> are appended to the pending list in the order of the selection, the others
  are left out; each appended entry carries the file, its name, and as sheet name the
  file name without the extension. Without a selection nothing changes.
\<close>

theorem handleFileSelect_keeps_spreadsheets:
  "handleFileSelect None st = st \<and>
   (\<exists>newFiles.
      handleFileSelect (Some selected) st = st\<lparr>files := files st @ newFiles\<rparr> \<and>
      map file newFiles =
        filter (\<lambda>f. endsWith (file_name f) (ascii ''.xlsx'') \<or>
                     endsWith (file_name f) (ascii ''.xls'')) selected \<and>
      (\<forall>u\<in>set newFiles.
         name u = file_name (file u) \<and>
         (name u = sheetName u @ ascii ''.xlsx'' \<or> name u = sheetName u @ ascii ''.xls'')))"
proof -
  let ?kept = "filter (\<lambda>f. endsWith (file_name f) (ascii ''.xlsx'') \<or>
                     endsWith (file_name f) (ascii ''.xls'')) selected"
  let ?new = "map (\<lambda>f. \<lparr>name = file_name f, file = f,
                            sheetName = replace_ext (file_name f)\<rparr>) ?kept"
  have "handleFileSelect (Some selected) st = st\<lparr>files := files st @ ?new\<rparr>"
    by (simp add: handleFileSelect_def)
  moreover have "map file ?new = ?kept"
    by (simp add: comp_def)
  moreover have "\<forall>u\<in>set ?new. name u = file_name (file u) \<and>
         (name u = sheetName u @ ascii ''.xlsx'' \<or> name u = sheetName u @ ascii ''.xls'')"
    using new_file_sheetName by auto
  moreover have "handleFileSelect None st = st"
    by (simp add: handleFileSelect_def)
  ultimately show ?thesis by blast
qed

text \<open>A selection of three files, one of them not a spreadsheet.\<close>

theorem handleFileSelect_keeps_spreadsheets_witness:
  "files (handleFileSelect
      (Some [File (ascii ''a.xlsx'') (1::nat), File (ascii ''notes.txt'') 2, File (ascii ''b.xls'') 3])
      initial_state) =
   [\<lparr>name = ascii ''a.xlsx'', file = File (ascii ''a.xlsx'') 1, sheetName = ascii ''a''\<rparr>,
    \<lparr>name = ascii ''b.xls'', file = File (ascii ''b.xls'') 3, sheetName = ascii ''b''\<rparr>]"
proof -
  let ?sel = "[File (ascii ''a.xlsx'') (1::nat), File (ascii ''notes.txt'') 2, File (ascii ''b.xls'') 3]"
  from handleFileSelect_keeps_spreadsheets [of initial_state ?sel]
  obtain newFiles where
    st: "handleFileSelect (Some ?sel) initial_state = initial_state\<lparr>files := files initial_state @ newFiles\<rparr>"
    and kept: "map file newFiles =
        filter (\<lambda>f. endsWith (file_name f) (ascii ''.xlsx'') \<or>
                     endsWith (file_name f) (ascii ''.xls'')) ?sel"
    and each: "\<forall>u\<in>set newFiles.
         name u = file_name (file u) \<and>
         (name u = sheetName u @ ascii ''.xlsx'' \<or> name u = sheetName u @ ascii ''.xls'')"
    by blast
  from kept have "map file newFiles = [File (ascii ''a.xlsx'') 1, File (ascii ''b.xls'') 3]"
    by (simp add: endsWith_def ascii_def)
  then obtain u v where uv: "newFiles = [u, v]" and u: "file u = File (ascii ''a.xlsx'') 1"
    and v: "file v = File (ascii ''b.xls'') 3"
    by (auto simp add: map_eq_Cons_conv)
  from each uv u v have "name u = ascii ''a.xlsx''" "name v = ascii ''b.xls''"
    "sheetName u = ascii ''a''" "sheetName v = ascii ''b''"
    by (auto simp add: ascii_def)
  with u v have "u = \<lparr>name = ascii ''a.xlsx'', file = File (ascii ''a.xlsx'') 1, sheetName = ascii ''a''\<rparr>"
    "v = \<lparr>name = ascii ''b.xls'', file = File (ascii ''b.xls'') 3, sheetName = ascii ''b''\<rparr>"
    by simp_all
  with st uv show ?thesis
    by (simp add: initial_state_def)
qed

text \<open>
  C8, amended. The sheet names of the pending files have at most 31 code units as long
  as every accepted file has at most 31 code units before its extension and every
  rename passes a name of at most 31 code units. Neither \<open>handleFileSelect\<close> nor
  \<open>updateSheetName\<close> enforces the bound itself; a longer name is cut to 31 code
  units when the files are merged.
\<close>

theorem pending_names_within_limit:
  "list_all within_limit evs \<Longrightarrow>
     \<forall>u\<in>set (files (run_events evs initial_state)). length (sheetName u) \<le> 31"
  by (rule run_events_within_limit) (simp_all add: initial_state_def)

text \<open>Two files are selected, the first is renamed, the second is removed.\<close>

theorem pending_names_within_limit_witness:
  "map sheetName (files (run_events
      [Select (Some [File (ascii ''a.xlsx'') (1::nat), File (ascii ''b.xls'') 2]),
       Rename 0 (ascii ''Totals''), Remove 1, Drop None]
      initial_state)) = [ascii ''Totals''] \<and>
   list_all (\<lambda>u. length (sheetName u) \<le> 31) (files (run_events
      [Select (Some [File (ascii ''a.xlsx'') (1::nat), File (ascii ''b.xls'') 2]),
       Rename 0 (ascii ''Totals''), Remove 1, Drop None]
      initial_state))"
proof -
  let ?evs = "[Select (Some [File (ascii ''a.xlsx'') (1::nat), File (ascii ''b.xls'') 2]),
       Rename 0 (ascii ''Totals''), Remove 1, Drop None]"
  have "list_all within_limit ?evs"
    by (simp add: selection_within_limit_def ascii_def)
  from pending_names_within_limit [OF this]
  have "list_all (\<lambda>u. length (sheetName u) \<le> 31) (files (run_events ?evs initial_state))"
    by (simp add: list_all_iff)
  moreover have "map sheetName (files (run_events ?evs initial_state)) = [ascii ''Totals'']"
    by (simp add: handleFileSelect_def handleDrop_def updateSheetName_def removeFile_def
        initial_state_def endsWith_def ascii_def)
  ultimately show ?thesis by simp
qed

text \<open>
  C8 as stated fails. A file whose name has 44 code units before \<open>.xlsx\<close> is entered
  with a sheet name of 44 code units, and \<open>updateSheetName\<close> stores a name of 44 code
  units as it is.
\<close>

theorem long_file_name_gives_long_sheetName:
  "\<not> length (sheetName (files (handleFileSelect
        (Some [File (ascii ''Quarterly revenue by region and product line.xlsx'') ()])
        initial_state) ! 0)) \<le> 31 \<and>
   \<not> length (sheetName (files (updateSheetName 0
        (ascii ''Quarterly revenue by region and product line'')
        (handleFileSelect (Some [File (ascii ''a.xlsx'') ()]) initial_state)) ! 0)) \<le> 31"
proof -
  have "replace_ext (ascii ''Quarterly revenue by region and product line.xlsx'')
      = ascii ''Quarterly revenue by region and product line''"
    using replace_ext_xlsx [of "ascii ''Quarterly revenue by region and product line''"]
    by (simp add: ascii_def)
  then show ?thesis
    by (simp add: handleFileSelect_def updateSheetName_def initial_state_def endsWith_def ascii_def)
qed

text \<open>
  C9. Merging an empty list of files does nothing: the state is unchanged, no workbook
  is built or written, and nothing is shown.
\<close>

theorem merge_of_no_files:
  "files st = [] \<Longrightarrow> mergeAndDownload arrayBuffer XLSX_read st = (st, [])"
  by (simp add: mergeAndDownload_def)

text \<open>The state the program starts in.\<close>

theorem merge_of_no_files_witness:
  "mergeAndDownload (\<lambda>f. Inr (file_content f) :: unit + nat)
     (\<lambda>b. Inr \<lparr>SheetNames = [ascii ''Sheet1''], Sheets = [ascii ''Sheet1'' \<mapsto> b]\<rparr> :: unit + nat Workbook)
     initial_state = (initial_state, [])"
  using merge_of_no_files [of initial_state] by (simp add: initial_state_def)

text \<open>
  C10. The filter at selection time compares case-sensitively, the regular expression
  that strips the extension does not: \<open>REPORT.XLSX\<close> and \<open>OLD.XLS\<close> are left out of
  the pending list although the regular expression would strip their extensions, and
  every entry that a selection adds has a name ending in lower-case \<open>.xlsx\<close> or
  \<open>.xls\<close>.
\<close>

theorem filter_is_case_sensitive:
  "files (handleFileSelect (Some [File (ascii ''REPORT.XLSX'') c]) st) = files st \<and>
   replace_ext (ascii ''REPORT.XLSX'') = ascii ''REPORT'' \<and>
   files (handleFileSelect (Some [File (ascii ''OLD.XLS'') c]) st) = files st \<and>
   replace_ext (ascii ''OLD.XLS'') = ascii ''OLD'' \<and>
   (\<forall>u\<in>set (drop (length (files st)) (files (handleFileSelect (Some selected) st))).
      endsWith (name u) (ascii ''.xlsx'') \<or> endsWith (name u) (ascii ''.xls''))"
proof (intro conjI)
  show "files (handleFileSelect (Some [File (ascii ''REPORT.XLSX'') c]) st) = files st"
    by (simp add: handleFileSelect_def endsWith_def ascii_def)
  show "files (handleFileSelect (Some [File (ascii ''OLD.XLS'') c]) st) = files st"
    by (simp add: handleFileSelect_def endsWith_def ascii_def)
  show "replace_ext (ascii ''REPORT.XLSX'') = ascii ''REPORT''"
    by (simp add: regex_at_def ascii_def char_match_i_def toUpperCase_ascii_def)
  show "replace_ext (ascii ''OLD.XLS'') = ascii ''OLD''"
    by (simp add: regex_at_def ascii_def char_match_i_def toUpperCase_ascii_def)
  show "\<forall>u\<in>set (drop (length (files st)) (files (handleFileSelect (Some selected) st))).
      endsWith (name u) (ascii ''.xlsx'') \<or> endsWith (name u) (ascii ''.xls'')"
    by (auto simp add: handleFileSelect_def)
qed

text \<open>Of four files, the two with an upper-case letter in the extension are left out.\<close>

theorem filter_is_case_sensitive_witness:
  "map name (files (handleFileSelect
      (Some [File (ascii ''a.xlsx'') (1::nat), File (ascii ''B.XLSX'') 2, File (ascii ''c.Xls'') 3,
             File (ascii ''d.xls'') 4])
      initial_state)) = [ascii ''a.xlsx'', ascii ''d.xls'']"
proof -
  let ?sel = "[File (ascii ''a.xlsx'') (1::nat), File (ascii ''B.XLSX'') 2, File (ascii ''c.Xls'') 3,
             File (ascii ''d.xls'') 4]"
  from filter_is_case_sensitive [of 0 initial_state ?sel]
  have "list_all (\<lambda>u. endsWith (name u) (ascii ''.xlsx'') \<or> endsWith (name u) (ascii ''.xls''))
      (files (handleFileSelect (Some ?sel) initial_state))"
    by (simp add: initial_state_def list_all_iff)
  then show ?thesis
    by (simp add: handleFileSelect_def initial_state_def endsWith_def ascii_def)
qed

end
